theory Spec2Isabelle
  imports Main
begin

section \<open>Strings\<close>

text \<open>
  JavaScript strings are modelled as \<open>string\<close> (lists of 8-bit characters), so the
  model covers ASCII file names, entity names and headers. The helpers below are the
  string methods the validator calls.
\<close>

definition upperChars :: string where
  "upperChars = ''ABCDEFGHIJKLMNOPQRSTUVWXYZ''"

definition lowerChars :: string where
  "lowerChars = ''abcdefghijklmnopqrstuvwxyz''"

text \<open>\<open>c.toLowerCase()\<close> on one ASCII character.\<close>

definition lowerChar :: "char \<Rightarrow> char" where
  "lowerChar c = (case map_of (zip upperChars lowerChars) c of Some l \<Rightarrow> l | None \<Rightarrow> c)"

definition toLowerCase :: "string \<Rightarrow> string" where
  "toLowerCase s = map lowerChar s"

text \<open>\<open>s.startsWith(p)\<close> and \<open>s.endsWith(p)\<close>.\<close>

definition startsWith :: "string \<Rightarrow> string \<Rightarrow> bool" where
  "startsWith p s = (take (length p) s = p)"

definition endsWith :: "string \<Rightarrow> string \<Rightarrow> bool" where
  "endsWith p s = startsWith (rev p) (rev s)"

text \<open>\<open>s.split(c)\<close> for a one-character separator: never the empty list.\<close>

fun split_on :: "char \<Rightarrow> string \<Rightarrow> string list" where
  "split_on c [] = [[]]"
| "split_on c (x # xs) =
     (if x = c then [] # split_on c xs
      else (case split_on c xs of
              [] \<Rightarrow> [[x]]
            | y # ys \<Rightarrow> (x # y) # ys))"

text \<open>\<open>content.split(/\r?\n/)[0]\<close>: the text before the first line feed, without the
  carriage return that directly precedes that line feed.\<close>

fun firstLine :: "string \<Rightarrow> string" where
  "firstLine [] = []"
| "firstLine [c] = (if c = CHR 0x0A then [] else [c])"
| "firstLine (c # d # cs) =
     (if c = CHR 0x0A then []
      else if c = CHR 0x0D \<and> d = CHR 0x0A then []
      else c # firstLine (d # cs))"

text \<open>The ASCII part of the white space that \<open>trim()\<close> removes.\<close>

definition isSpace :: "char \<Rightarrow> bool" where
  "isSpace c = (c \<in> set [CHR '' '', CHR 0x09, CHR 0x0A, CHR 0x0B, CHR 0x0C, CHR 0x0D])"

definition trim :: "string \<Rightarrow> string" where
  "trim s = rev (dropWhile isSpace (rev (dropWhile isSpace s)))"

text \<open>\<open>h.replace(/^"|"$/g, "")\<close>: one leading and one trailing double quote go.\<close>

definition stripQuotes :: "string \<Rightarrow> string" where
  "stripQuotes s =
     (let s1 = (case s of [] \<Rightarrow> [] | c # r \<Rightarrow> if c = CHR 0x22 then r else s)
      in if s1 \<noteq> [] \<and> last s1 = CHR 0x22 then butlast s1 else s1)"

text \<open>\<open>name.replace(/\./g, "-") + ".csv"\<close>.\<close>

definition strictNameOf :: "string \<Rightarrow> string" where
  "strictNameOf name = map (\<lambda>c. if c = CHR ''.'' then CHR ''-'' else c) name @ ''.csv''"

text \<open>\<open>path.join(folder, name)\<close> for a plain directory entry and
  \<open>path.basename(p)\<close>, with the POSIX separator.\<close>

definition path_join :: "string \<Rightarrow> string \<Rightarrow> string" where
  "path_join dir name = dir @ ''/'' @ name"

definition basename :: "string \<Rightarrow> string" where
  "basename p = last (split_on CHR ''/'' p)"

text \<open>The default \<open>Array.prototype.sort()\<close> on strings: ascending by code units.
  An insertion sort gives the same list, since equal strings are identical.\<close>

fun str_le :: "string \<Rightarrow> string \<Rightarrow> bool" where
  "str_le [] ys = True"
| "str_le (x # xs) [] = False"
| "str_le (x # xs) (y # ys) =
     (if x = y then str_le xs ys else (of_char x :: nat) < of_char y)"

fun insert_name :: "string \<Rightarrow> string list \<Rightarrow> string list" where
  "insert_name x [] = [x]"
| "insert_name x (y # ys) = (if str_le x y then x # y # ys else y # insert_name x ys)"

definition sort_names :: "string list \<Rightarrow> string list" where
  "sort_names xs = foldr insert_name xs []"

section \<open>The compiled model (CSN)\<close>

text \<open>
  An element of a definition, with the properties the validator reads: \<open>type\<close>,
  \<open>key\<close>, \<open>virtual\<close>, the annotation \<open>@cds.persistence.skip\<close>,
  \<open>cardinality\<close> (absent, or present with an optional \<open>max\<close>) and \<open>target\<close>.
  An absent property is \<open>None\<close>; a flag is its truthiness.
\<close>

record element =
  etype :: "string option"
  key :: bool
  virtual :: bool
  el_skip :: bool
  cardinality :: "string option option"
  target :: "string option"

text \<open>A definition: \<open>kind\<close>, \<open>@cds.persistence.skip\<close> and \<open>elements\<close>, the
  latter in the enumeration order of \<open>for ... in\<close> and \<open>Object.keys\<close>.\<close>

record cds_def =
  kind :: string
  def_skip :: bool
  elements :: "(string \<times> element) list"

text \<open>\<open>csn.definitions\<close>: names are unique, \<open>map_of\<close> is the property lookup.\<close>

type_synonym csn = "(string \<times> cds_def) list"

section \<open>Console output\<close>

text \<open>
  One value per block of \<open>console\<close> calls. Header events carry the entity name, the
  file's base name and the joined column list; filename events carry what their lines
  print.
\<close>

datatype phase = Filenames | Headers

datatype event =
    Loading phase
  | NoCsvFilesFound
  | FoundCsvFiles phase nat
  | HeaderErrorExtra string string "string list"
  | HeaderErrorMissingKeys string string "string list"
  | HeaderWarningMissingNonKeys string string "string list"
  | HeaderOk string string
  | FunctionActionCsv string string
  | EntityNotFound string string
  | FilenameOk string string
  | EntityCaseError string string string string
  | CaseMismatch string string string
  | NamespaceError string string string
  | NoCsv string string
  | Separator
  | Findings phase nat nat
  | Perfect phase

section \<open>getCsvHeaders\<close>

text \<open>
  The file reader is a function from paths to contents; \<open>None\<close> is a
  \<open>readFileSync\<close> that throws. The \<open>catch\<close> turns that into no headers.
\<close>

definition getCsvHeaders :: "(string \<Rightarrow> string option) \<Rightarrow> string \<Rightarrow> string list" where
  "getCsvHeaders readFile filePath =
     (case readFile filePath of
        None \<Rightarrow> []
      | Some content \<Rightarrow>
          (let line = firstLine content in
           if line = [] then []
           else if CHR '';'' \<in> set line
             then map (\<lambda>h. stripQuotes (trim h)) (split_on CHR '';'' line)
           else map (\<lambda>h. stripQuotes (trim h)) (split_on CHR '','' line)))"

section \<open>validateHeaderRow\<close>

definition managedFields :: "string list" where
  "managedFields = [''createdAt'', ''createdBy'', ''modifiedAt'', ''modifiedBy'']"

definition isAssocOrComp :: "element \<Rightarrow> bool" where
  "isAssocOrComp el =
     (etype el = Some ''cds.Association'' \<or> etype el = Some ''cds.Composition'')"

text \<open>\<open>element.cardinality && element.cardinality.max === "*"\<close>.\<close>

definition isToMany :: "element \<Rightarrow> bool" where
  "isToMany el = (case cardinality el of None \<Rightarrow> False | Some m \<Rightarrow> m = Some ''*'')"

text \<open>\<open>csn.definitions[element.target]\<close>: an absent target is the property name
  \<open>undefined\<close>.\<close>

definition lookupTarget :: "csn \<Rightarrow> string option \<Rightarrow> cds_def option" where
  "lookupTarget m t = map_of m (case t of None \<Rightarrow> ''undefined'' | Some n \<Rightarrow> n)"

text \<open>The columns one element pushes onto \<open>expected\<close>: one pass of the loop body.\<close>

definition expectedOf :: "csn \<Rightarrow> string \<times> element \<Rightarrow> string list" where
  "expectedOf m ne =
     (let name = fst ne; el = snd ne in
      if virtual el \<or> el_skip el then []
      else if name \<in> set managedFields then []
      else if isAssocOrComp el then
        (if isToMany el then []
         else if etype el = Some ''cds.Composition'' then []
         else (case lookupTarget m (target el) of
                 None \<Rightarrow> []
               | Some tdef \<Rightarrow>
                   map (\<lambda>k. name @ ''_'' @ k)
                     (filter (\<lambda>k. case map_of (elements tdef) k of
                                     None \<Rightarrow> False | Some e \<Rightarrow> key e)
                        (map fst (elements tdef)))))
      else [name])"

definition expectedColumns :: "csn \<Rightarrow> cds_def \<Rightarrow> string list" where
  "expectedColumns m d = concat (map (expectedOf m) (elements d))"

definition missingColumns :: "string list \<Rightarrow> string list \<Rightarrow> string list" where
  "missingColumns expected headers = filter (\<lambda>e. e \<notin> set headers) expected"

definition isMissingKey :: "cds_def \<Rightarrow> string \<Rightarrow> bool" where
  "isMissingKey d e =
     (if CHR ''_'' \<in> set e then False
      else (case map_of (elements d) e of None \<Rightarrow> False | Some el \<Rightarrow> key el))"

definition missingKeys :: "cds_def \<Rightarrow> string list \<Rightarrow> string list" where
  "missingKeys d missing = filter (isMissingKey d) missing"

definition missingNonKeys :: "string list \<Rightarrow> string list \<Rightarrow> string list" where
  "missingNonKeys mks missing = filter (\<lambda>e. e \<notin> set mks) missing"

text \<open>The callback of \<open>headers.filter\<close>; \<open>h.split("_")[0]\<close> is the text before the
  first underscore.\<close>

definition isExtra :: "cds_def \<Rightarrow> string list \<Rightarrow> string \<Rightarrow> bool" where
  "isExtra d expected h =
     (if h \<in> set managedFields then False
      else if h \<in> set expected then False
      else if CHR ''_'' \<in> set h \<and>
              (case map_of (elements d) (takeWhile (\<lambda>c. c \<noteq> CHR ''_'') h) of
                 None \<Rightarrow> False
               | Some el \<Rightarrow> isAssocOrComp el \<and> \<not> isToMany el) then False
      else if toLowerCase h \<in> set (map (\<lambda>n. toLowerCase (fst n)) (elements d)) then False
      else True)"

definition extraColumns :: "cds_def \<Rightarrow> string list \<Rightarrow> string list \<Rightarrow> string list" where
  "extraColumns d expected headers = filter (isExtra d expected) headers"

record header_result =
  hasErrors :: bool
  hasWarnings :: bool
  emitted :: "event list"

definition validateHeaderRow ::
  "(string \<Rightarrow> string option) \<Rightarrow> string \<Rightarrow> string \<Rightarrow> csn \<Rightarrow> nat \<Rightarrow> header_result" where
  "validateHeaderRow readFile filePath entityName m traceLevel =
     (case map_of m entityName of
        None \<Rightarrow> \<lparr>hasErrors = False, hasWarnings = False, emitted = []\<rparr>
      | Some d \<Rightarrow>
          (let headers = getCsvHeaders readFile filePath;
               expected = expectedColumns m d;
               missing = missingColumns expected headers;
               mks = missingKeys d missing;
               mnks = missingNonKeys mks missing;
               extra = extraColumns d expected headers;
               file = basename filePath;
               errs = (0 < length extra \<or> 0 < length mks);
               warns = (0 < length mnks \<and> 1 \<le> traceLevel)
           in \<lparr>hasErrors = errs,
               hasWarnings = warns,
               emitted =
                 (if 0 < length extra then [HeaderErrorExtra entityName file extra] else []) @
                 (if 0 < length mks then [HeaderErrorMissingKeys entityName file mks] else []) @
                 (if 0 < length mnks \<and> 1 \<le> traceLevel
                    then [HeaderWarningMissingNonKeys entityName file mnks] else []) @
                 (if \<not> errs \<and> \<not> warns \<and> 2 \<le> traceLevel
                    then [HeaderOk entityName file] else [])\<rparr>))"

section \<open>Discovered files and entities\<close>

record diskFile =
  actualName :: string
  lowerName :: string
  folder :: string

text \<open>
  A candidate folder: absent (\<open>existsSync\<close> is false), listed by \<open>readdirSync\<close>, or
  present but not listable, where \<open>readdirSync\<close> throws and nothing catches it.
\<close>

datatype folder_state = Absent | Entries "string list" | Unlistable

datatype error = IOError | TypeError

definition dataFolders :: "string list" where
  "dataFolders = [''db/data'', ''db/csv'', ''db/src/csv'']"

definition csvFilesIn :: "(string \<Rightarrow> folder_state) \<Rightarrow> string \<Rightarrow> error + diskFile list" where
  "csvFilesIn dirs d =
     (case dirs d of
        Absent \<Rightarrow> Inr []
      | Unlistable \<Rightarrow> Inl IOError
      | Entries fs \<Rightarrow>
          Inr (map (\<lambda>f. \<lparr>actualName = f, lowerName = toLowerCase f, folder = d\<rparr>)
                 (filter (\<lambda>f. endsWith ''.csv'' (toLowerCase f)) fs)))"

fun gatherCsvFiles :: "(string \<Rightarrow> folder_state) \<Rightarrow> string list \<Rightarrow> error + diskFile list" where
  "gatherCsvFiles dirs [] = Inr []"
| "gatherCsvFiles dirs (d # ds) =
     (case csvFilesIn dirs d of
        Inl e \<Rightarrow> Inl e
      | Inr xs \<Rightarrow>
          (case gatherCsvFiles dirs ds of
             Inl e \<Rightarrow> Inl e
           | Inr ys \<Rightarrow> Inr (xs @ ys)))"

text \<open>The entity names, filtered and sorted.\<close>

definition isEntity :: "csn \<Rightarrow> string \<Rightarrow> bool" where
  "isEntity m name =
     (case map_of m name of
        None \<Rightarrow> False
      | Some d \<Rightarrow> kind d = ''entity'' \<and> \<not> startsWith ''sap.common'' name \<and> \<not> def_skip d)"

definition entitiesOf :: "csn \<Rightarrow> string list" where
  "entitiesOf m = sort_names (filter (isEntity m) (map fst m))"

section \<open>validateCsvHeaders\<close>

text \<open>The counters and the console of one run.\<close>

record acc =
  errors :: nat
  warnings :: nat
  out :: "event list"

text \<open>What a run leaves: the counts of its summary line, when it reaches one, and
  everything it printed.\<close>

record run_result =
  counts :: "(nat \<times> nat) option"
  printed :: "event list"

definition summary :: "phase \<Rightarrow> acc \<Rightarrow> run_result" where
  "summary ph a =
     \<lparr>counts = Some (errors a, warnings a),
      printed = out a @
        [Separator,
         if 0 < errors a \<or> 0 < warnings a then Findings ph (errors a) (warnings a)
         else Perfect ph]\<rparr>"

text \<open>One pass of the loop over the entities.\<close>

definition headerStep ::
  "(string \<Rightarrow> string option) \<Rightarrow> csn \<Rightarrow> nat \<Rightarrow> diskFile list \<Rightarrow> string \<Rightarrow> acc \<Rightarrow> acc" where
  "headerStep readFile m traceLevel diskFiles name a =
     (case List.find (\<lambda>f. actualName f = strictNameOf name) diskFiles of
        None \<Rightarrow> a
      | Some exactMatch \<Rightarrow>
          (let r = validateHeaderRow readFile
                     (path_join (folder exactMatch) (actualName exactMatch)) name m traceLevel
           in \<lparr>errors = errors a + (if hasErrors r then 1 else 0),
               warnings = warnings a + (if hasWarnings r then 1 else 0),
               out = out a @ emitted r\<rparr>))"

definition validateCsvHeaders ::
  "csn \<Rightarrow> (string \<Rightarrow> folder_state) \<Rightarrow> (string \<Rightarrow> string option) \<Rightarrow> nat
     \<Rightarrow> error + run_result" where
  "validateCsvHeaders m dirs readFile traceLevel =
     (case gatherCsvFiles dirs dataFolders of
        Inl e \<Rightarrow> Inl e
      | Inr diskFiles \<Rightarrow>
          if length diskFiles = 0 then
            Inr \<lparr>counts = None, printed = [Loading Headers, NoCsvFilesFound]\<rparr>
          else
            Inr (summary Headers
                   (fold (headerStep readFile m traceLevel diskFiles) (entitiesOf m)
                      \<lparr>errors = 0, warnings = 0,
                       out = [Loading Headers, FoundCsvFiles Headers (length diskFiles)]\<rparr>)))"

section \<open>validateCsvFilenames, as in \<open>src/tools/validate-csv.js\<close>\<close>

text \<open>One pass of the loop over the entities: exact, case-insensitive and
  namespace-less (lazy) matches. The \<open>if\<close> chain of the source reads the three
  \<open>find\<close> results; the cases below are its branches in the same order, and the
  third case is the chain falling through.\<close>

definition filenameStep :: "nat \<Rightarrow> diskFile list \<Rightarrow> string \<Rightarrow> acc \<Rightarrow> acc" where
  "filenameStep traceLevel diskFiles name a =
     (let strictName = strictNameOf name;
          strictNameLower = toLowerCase strictName;
          exactMatch = List.find (\<lambda>f. actualName f = strictName) diskFiles;
          caseMatch = List.find (\<lambda>f. lowerName f = strictNameLower) diskFiles;
          shortName = last (split_on CHR ''.'' name) @ ''.csv'';
          lazyMatch = List.find (\<lambda>f. lowerName f = toLowerCase shortName) diskFiles
      in case (exactMatch, caseMatch, lazyMatch) of
           (None, Some c, _) \<Rightarrow>
             a\<lparr>warnings := warnings a + 1,
               out := out a @
                 (if 1 \<le> traceLevel then [CaseMismatch name strictName (actualName c)]
                  else [])\<rparr>
         | (None, None, Some l) \<Rightarrow>
             a\<lparr>errors := errors a + 1,
               out := out a @ [NamespaceError name strictName (actualName l)]\<rparr>
         | (None, None, None) \<Rightarrow> a
         | (Some e, _, _) \<Rightarrow>
             if 2 \<le> traceLevel then a\<lparr>out := out a @ [FilenameOk name (actualName e)]\<rparr>
             else a)"

definition validateCsvFilenames ::
  "csn \<Rightarrow> (string \<Rightarrow> folder_state) \<Rightarrow> nat \<Rightarrow> error + run_result" where
  "validateCsvFilenames m dirs traceLevel =
     (case gatherCsvFiles dirs dataFolders of
        Inl e \<Rightarrow> Inl e
      | Inr diskFiles \<Rightarrow>
          if length diskFiles = 0 then
            Inr \<lparr>counts = None, printed = [Loading Filenames, NoCsvFilesFound]\<rparr>
          else
            Inr (summary Filenames
                   (fold (filenameStep traceLevel diskFiles) (entitiesOf m)
                      \<lparr>errors = 0, warnings = 0,
                       out = [Loading Filenames, FoundCsvFiles Filenames (length diskFiles)]\<rparr>)))"

section \<open>validateCsvFilenames, as in \<open>src/unnamed/part_000\<close>\<close>

text \<open>
  \<open>entityLookup\<close> is a plain object filled by \<open>entityLookup[name.toLowerCase()] = name\<close>.
  Reading a key gives the last name stored under it, or what \<open>Object.prototype\<close> has
  under that key: of its members only \<open>constructor\<close> and \<open>__proto__\<close> are
  lower-case, and an assignment of a string to \<open>__proto__\<close> stores nothing.
\<close>

datatype looked_up = Undefined | Name string | NotAString

definition remember :: "string \<Rightarrow> (string \<Rightarrow> string option) \<Rightarrow> string \<Rightarrow> string option" where
  "remember name t = t(toLowerCase name \<mapsto> name)"

definition entityLookupOf :: "string list \<Rightarrow> string \<Rightarrow> string option" where
  "entityLookupOf entities = fold remember entities Map.empty"

definition readLookup :: "(string \<Rightarrow> string option) \<Rightarrow> string \<Rightarrow> looked_up" where
  "readLookup t k =
     (if k = ''__proto__'' then NotAString
      else (case t k of
              Some n \<Rightarrow> Name n
            | None \<Rightarrow> if k = ''constructor'' then NotAString else Undefined))"

text \<open>\<open>actualName.replace(/\.csv$/i, "")\<close>.\<close>

definition stripCsv :: "string \<Rightarrow> string" where
  "stripCsv f =
     (if endsWith ''.csv'' (toLowerCase f) then take (length f - 4) f else f)"

text \<open>\<open>fileBaseName.replace(/-/g, ".")\<close>.\<close>

definition hyphensToDots :: "string \<Rightarrow> string" where
  "hyphensToDots s = map (\<lambda>c. if c = CHR ''-'' then CHR ''.'' else c) s"

text \<open>One pass of the loop over the disk files; \<open>replace\<close> on a value that is not a
  string throws a \<open>TypeError\<close>.\<close>

definition fileStep ::
  "nat \<Rightarrow> (string \<Rightarrow> string option) \<Rightarrow> diskFile \<Rightarrow> acc \<Rightarrow> error + acc" where
  "fileStep traceLevel entityLookup f a =
     (let fileBaseName = stripCsv (actualName f) in
      if CHR ''.'' \<in> set fileBaseName then
        Inr (a\<lparr>warnings := warnings a + 1,
               out := out a @
                 (if 1 \<le> traceLevel then [FunctionActionCsv (actualName f) fileBaseName]
                  else [])\<rparr>)
      else
        (let entityNameFromFile = hyphensToDots fileBaseName;
             entityNameLower = toLowerCase entityNameFromFile
         in case readLookup entityLookup entityNameLower of
              NotAString \<Rightarrow> Inl TypeError
            | Undefined \<Rightarrow>
                Inr (a\<lparr>errors := errors a + 1,
                       out := out a @ [EntityNotFound (actualName f) entityNameFromFile]\<rparr>)
            | Name correctEntityName \<Rightarrow>
                if correctEntityName = [] then
                  Inr (a\<lparr>errors := errors a + 1,
                         out := out a @ [EntityNotFound (actualName f) entityNameFromFile]\<rparr>)
                else
                  (let strictName = strictNameOf correctEntityName in
                   if actualName f = strictName then
                     Inr (if 2 \<le> traceLevel
                          then a\<lparr>out := out a @ [FilenameOk correctEntityName (actualName f)]\<rparr>
                          else a)
                   else if entityNameFromFile \<noteq> correctEntityName then
                     Inr (a\<lparr>errors := errors a + 1,
                            out := out a @
                              [EntityCaseError (actualName f) entityNameFromFile
                                 correctEntityName strictName]\<rparr>)
                   else
                     Inr (a\<lparr>warnings := warnings a + 1,
                            out := out a @
                              (if 1 \<le> traceLevel
                               then [CaseMismatch correctEntityName strictName (actualName f)]
                               else [])\<rparr>))))"

fun filesLoop ::
  "nat \<Rightarrow> (string \<Rightarrow> string option) \<Rightarrow> diskFile list \<Rightarrow> acc \<Rightarrow> error + acc" where
  "filesLoop traceLevel entityLookup [] a = Inr a"
| "filesLoop traceLevel entityLookup (f # fs) a =
     (case fileStep traceLevel entityLookup f a of
        Inl e \<Rightarrow> Inl e
      | Inr a' \<Rightarrow> filesLoop traceLevel entityLookup fs a')"

text \<open>One pass of the second loop: the entities without a file of the strict name.\<close>

definition noCsvStep :: "nat \<Rightarrow> diskFile list \<Rightarrow> string \<Rightarrow> acc \<Rightarrow> acc" where
  "noCsvStep traceLevel diskFiles entityName a =
     (let strictName = strictNameOf entityName;
          hasFile = list_ex (\<lambda>f. actualName f = strictName) diskFiles
      in if \<not> hasFile \<and> 2 \<le> traceLevel
         then a\<lparr>out := out a @ [NoCsv entityName strictName]\<rparr>
         else a)"

definition validateCsvFilenames_part_000 ::
  "csn \<Rightarrow> (string \<Rightarrow> folder_state) \<Rightarrow> nat \<Rightarrow> error + run_result" where
  "validateCsvFilenames_part_000 m dirs traceLevel =
     (case gatherCsvFiles dirs dataFolders of
        Inl e \<Rightarrow> Inl e
      | Inr diskFiles \<Rightarrow>
          if length diskFiles = 0 then
            Inr \<lparr>counts = None, printed = [Loading Filenames, NoCsvFilesFound]\<rparr>
          else
            (case filesLoop traceLevel (entityLookupOf (entitiesOf m)) diskFiles
                    \<lparr>errors = 0, warnings = 0,
                     out = [Loading Filenames, FoundCsvFiles Filenames (length diskFiles)]\<rparr> of
               Inl e \<Rightarrow> Inl e
             | Inr a \<Rightarrow>
                 Inr (summary Filenames
                        (fold (noCsvStep traceLevel diskFiles) (entitiesOf m) a))))"

section \<open>validateCsvs\<close>

text \<open>Both validations in sequence; an exception in the first ends the run.\<close>

definition validateCsvs ::
  "csn \<Rightarrow> (string \<Rightarrow> folder_state) \<Rightarrow> (string \<Rightarrow> string option) \<Rightarrow> nat
     \<Rightarrow> error + run_result \<times> run_result" where
  "validateCsvs m dirs readFile traceLevel =
     (case validateCsvFilenames m dirs traceLevel of
        Inl e \<Rightarrow> Inl e
      | Inr r1 \<Rightarrow>
          (case validateCsvHeaders m dirs readFile traceLevel of
             Inl e \<Rightarrow> Inl e
           | Inr r2 \<Rightarrow> Inr (r1, r2)))"

definition validateCsvs_part_000 ::
  "csn \<Rightarrow> (string \<Rightarrow> folder_state) \<Rightarrow> (string \<Rightarrow> string option) \<Rightarrow> nat
     \<Rightarrow> error + run_result \<times> run_result" where
  "validateCsvs_part_000 m dirs readFile traceLevel =
     (case validateCsvFilenames_part_000 m dirs traceLevel of
        Inl e \<Rightarrow> Inl e
      | Inr r1 \<Rightarrow>
          (case validateCsvHeaders m dirs readFile traceLevel of
             Inl e \<Rightarrow> Inl e
           | Inr r2 \<Rightarrow> Inr (r1, r2)))"

text \<open>The counts of a run, when it reached its summary line.\<close>

definition countsOf :: "error + run_result \<Rightarrow> (nat \<times> nat) option" where
  "countsOf r = (case r of Inl e \<Rightarrow> None | Inr x \<Rightarrow> counts x)"

definition printedOf :: "error + run_result \<Rightarrow> event list" where
  "printedOf r = (case r of Inl e \<Rightarrow> [] | Inr x \<Rightarrow> printed x)"

section \<open>Reading the output\<close>

text \<open>
  Projections of the printed events, used to state what a run reports: the columns listed
  by each kind of header finding, and the (entity, file) pair a header finding is about.
\<close>

definition reportedMissingKeys :: "event list \<Rightarrow> string list" where
  "reportedMissingKeys evs =
     concat (map (\<lambda>ev. case ev of HeaderErrorMissingKeys n f cols \<Rightarrow> cols | _ \<Rightarrow> []) evs)"

definition reportedMissingNonKeys :: "event list \<Rightarrow> string list" where
  "reportedMissingNonKeys evs =
     concat (map (\<lambda>ev. case ev of HeaderWarningMissingNonKeys n f cols \<Rightarrow> cols | _ \<Rightarrow> []) evs)"

definition reportedExtra :: "event list \<Rightarrow> string list" where
  "reportedExtra evs =
     concat (map (\<lambda>ev. case ev of HeaderErrorExtra n f cols \<Rightarrow> cols | _ \<Rightarrow> []) evs)"

definition headerPairOf :: "event \<Rightarrow> (string \<times> string) option" where
  "headerPairOf ev =
     (case ev of
        HeaderErrorExtra n f cols \<Rightarrow> Some (n, f)
      | HeaderErrorMissingKeys n f cols \<Rightarrow> Some (n, f)
      | HeaderWarningMissingNonKeys n f cols \<Rightarrow> Some (n, f)
      | HeaderOk n f \<Rightarrow> Some (n, f)
      | _ \<Rightarrow> None)"

text \<open>What one pass of the loop in \<open>validateCsvHeaders\<close> prints.\<close>

definition headerEvents ::
  "(string \<Rightarrow> string option) \<Rightarrow> csn \<Rightarrow> nat \<Rightarrow> diskFile list \<Rightarrow> string \<Rightarrow> event list" where
  "headerEvents rd m lvl files name = out (headerStep rd m lvl files name \<lparr>errors = 0, warnings = 0, out = []\<rparr>)"

text \<open>The paths of the discovered files: the only paths a run can read.\<close>

definition discoveredPaths :: "(string \<Rightarrow> folder_state) \<Rightarrow> string list" where
  "discoveredPaths dirs =
     (case gatherCsvFiles dirs dataFolders of
        Inl e \<Rightarrow> []
      | Inr files \<Rightarrow> map (\<lambda>f. path_join (folder f) (actualName f)) files)"

text \<open>What one pass of the second loop in \<open>src/unnamed/part_000\<close> prints.\<close>

definition noCsvEvents :: "nat \<Rightarrow> diskFile list \<Rightarrow> string \<Rightarrow> event list" where
  "noCsvEvents lvl files n =
     (if \<not> list_ex (\<lambda>f. actualName f = strictNameOf n) files \<and> 2 \<le> lvl
      then [NoCsv n (strictNameOf n)] else [])"

section \<open>Concrete models and file systems\<close>

text \<open>
  Scenario A of the specification: entity \<open>sales.Order\<close> with key \<open>ID\<close> and scalar
  \<open>status\<close>, file \<open>db/data/sales-Order.csv\<close>. The second model adds a key whose
  name has an underscore, a to-one association to \<open>sales.Customer\<close>, a to-many
  composition and a managed field.
\<close>

definition el0 :: element where
  "el0 = \<lparr>etype = Some ''cds.String'', key = False, virtual = False, el_skip = False,
           cardinality = None, target = None\<rparr>"

definition keyEl :: element where
  "keyEl = el0\<lparr>key := True\<rparr>"

definition orderA :: cds_def where
  "orderA = \<lparr>kind = ''entity'', def_skip = False,
              elements = [(''ID'', keyEl), (''status'', el0)]\<rparr>"

definition csnA :: csn where
  "csnA = [(''sales.Order'', orderA)]"

definition customerB :: cds_def where
  "customerB = \<lparr>kind = ''entity'', def_skip = False,
                 elements = [(''ID'', keyEl), (''name'', el0)]\<rparr>"

definition orderB :: cds_def where
  "orderB = \<lparr>kind = ''entity'', def_skip = False,
              elements =
                [(''ID'', keyEl), (''order_no'', keyEl), (''status'', el0),
                 (''customer'', el0\<lparr>etype := Some ''cds.Association'',
                                      target := Some ''sales.Customer''\<rparr>),
                 (''items'', el0\<lparr>etype := Some ''cds.Composition'',
                                   cardinality := Some (Some ''*''),
                                   target := Some ''sales.OrderItem''\<rparr>),
                 (''createdAt'', el0\<lparr>etype := Some ''cds.Timestamp''\<rparr>)]\<rparr>"

definition csnB :: csn where
  "csnB = [(''sales.Order'', orderB), (''sales.Customer'', customerB)]"

definition orderPath :: string where
  "orderPath = ''db/data/sales-Order.csv''"

definition dirsA :: "string \<Rightarrow> folder_state" where
  "dirsA d = (if d = ''db/data'' then Entries [''sales-Order.csv'', ''notes.txt''] else Absent)"

definition dirsA2 :: "string \<Rightarrow> folder_state" where
  "dirsA2 d = (if d = ''tmp'' then Entries [''old.csv''] else dirsA d)"

definition dirsNoCsv :: "string \<Rightarrow> folder_state" where
  "dirsNoCsv d = (if d = ''db/data'' then Entries [''notes.txt''] else Absent)"

definition dirsLowerName :: "string \<Rightarrow> folder_state" where
  "dirsLowerName d = (if d = ''db/data'' then Entries [''sales-order.csv''] else Absent)"

definition dirsMixed :: "string \<Rightarrow> folder_state" where
  "dirsMixed d =
     (if d = ''db/data''
      then Entries [''sales-Order.csv'', ''sales-customer.csv'', ''Customer.csv'', ''notes.txt'']
      else Absent)"

definition dirsCustomerOnly :: "string \<Rightarrow> folder_state" where
  "dirsCustomerOnly d = (if d = ''db/csv'' then Entries [''sales-Customer.csv''] else Absent)"

definition fileWith :: "string \<Rightarrow> string \<Rightarrow> string option" where
  "fileWith header p = (if p = orderPath then Some (header @ [CHR 0x0A] @ ''1,new'') else None)"


definition fileWith2 :: "string \<Rightarrow> string \<Rightarrow> string option" where
  "fileWith2 header p = (if p = ''README.md'' then Some ''captools'' else fileWith header p)"

section \<open>Properties of header reconciliation\<close>

lemma reportedMissingKeys_row:
  "map_of m n = Some d \<Longrightarrow>
   reportedMissingKeys (emitted (validateHeaderRow rd p n m lvl)) =
     missingKeys d (missingColumns (expectedColumns m d) (getCsvHeaders rd p))"
  by (simp add: validateHeaderRow_def reportedMissingKeys_def Let_def)

lemma reportedExtra_row:
  "map_of m n = Some d \<Longrightarrow>
   reportedExtra (emitted (validateHeaderRow rd p n m lvl)) =
     extraColumns d (expectedColumns m d) (getCsvHeaders rd p)"
  by (simp add: validateHeaderRow_def reportedExtra_def Let_def)

lemma reportedMissingNonKeys_row:
  "map_of m n = Some d \<Longrightarrow>
   reportedMissingNonKeys (emitted (validateHeaderRow rd p n m lvl)) =
     (if 1 \<le> lvl
      then missingNonKeys (missingKeys d (missingColumns (expectedColumns m d) (getCsvHeaders rd p)))
             (missingColumns (expectedColumns m d) (getCsvHeaders rd p))
      else [])"
  by (simp add: validateHeaderRow_def reportedMissingNonKeys_def Let_def)

lemma hasErrors_row:
  "map_of m n = Some d \<Longrightarrow>
   hasErrors (validateHeaderRow rd p n m lvl) =
     (extraColumns d (expectedColumns m d) (getCsvHeaders rd p) \<noteq> [] \<or>
      missingKeys d (missingColumns (expectedColumns m d) (getCsvHeaders rd p)) \<noteq> [])"
  by (simp add: validateHeaderRow_def Let_def)

lemma underscore_not_missingKey: "CHR ''_'' \<in> set e \<Longrightarrow> e \<notin> set (missingKeys d missing)"
  by (simp add: missingKeys_def isMissingKey_def)

lemma managed_no_underscore: "c \<in> set managedFields \<Longrightarrow> CHR ''_'' \<notin> set c"
  by (auto simp: managedFields_def)

lemma expectedOf_shape:
  "e \<in> set (expectedOf m ne) \<Longrightarrow> (e = fst ne \<and> fst ne \<notin> set managedFields) \<or> CHR ''_'' \<in> set e"
  by (auto simp: expectedOf_def Let_def split: if_splits option.splits)

lemma managed_not_expected: "c \<in> set managedFields \<Longrightarrow> c \<notin> set (expectedColumns m d)"
  using expectedOf_shape managed_no_underscore
  by (fastforce simp: expectedColumns_def)

lemma managed_not_extra: "c \<in> set managedFields \<Longrightarrow> c \<notin> set (extraColumns d ex hs)"
  by (simp add: extraColumns_def isExtra_def)

lemma fk_expected:
  assumes "(name, el) \<in> set (elements d)"
    and "etype el = Some ''cds.Association''" and "\<not> virtual el" and "\<not> el_skip el"
    and "name \<notin> set managedFields" and "\<not> isToMany el"
    and "lookupTarget m (target el) = Some tdef"
    and "map_of (elements tdef) k = Some kel" and "key kel"
  shows "name @ ''_'' @ k \<in> set (expectedColumns m d)"
proof -
  have "k \<in> fst ` set (elements tdef)"
    using assms(8) by (metis map_of_eq_None_iff option.distinct(1))
  then have "name @ ''_'' @ k \<in> set (expectedOf m (name, el))"
    using assms by (auto simp: expectedOf_def isAssocOrComp_def Let_def)
  then show ?thesis
    using assms(1) by (auto simp: expectedColumns_def)
qed

lemma scalar_expected:
  assumes "(name, el) \<in> set (elements d)"
    and "\<not> isAssocOrComp el" and "\<not> virtual el" and "\<not> el_skip el"
    and "name \<notin> set managedFields"
  shows "name \<in> set (expectedColumns m d)"
proof -
  have "name \<in> set (expectedOf m (name, el))"
    using assms by (simp add: expectedOf_def Let_def)
  then show ?thesis
    using assms(1) by (auto simp: expectedColumns_def)
qed

lemma filter_removeAll_irrelevant: "\<not> P c \<Longrightarrow> filter P (removeAll c hs) = filter P hs"
  by (induction hs) auto

lemma extra_removeAll:
  "c \<in> set ex \<Longrightarrow> extraColumns d ex (removeAll c hs) = extraColumns d ex hs"
  by (simp add: extraColumns_def isExtra_def filter_removeAll_irrelevant)

lemma missingKeys_removeAll:
  assumes "CHR ''_'' \<in> set c"
  shows "missingKeys d (missingColumns ex (removeAll c hs)) = missingKeys d (missingColumns ex hs)"
proof -
  have "\<not> isMissingKey d c"
    using assms by (simp add: isMissingKey_def)
  then have "\<And>e. (e \<notin> set (removeAll c hs) \<and> isMissingKey d e) = (e \<notin> set hs \<and> isMissingKey d e)"
    by auto
  then show ?thesis
    by (simp add: missingKeys_def missingColumns_def)
qed

lemma missing_nonkey_iff:
  "e \<in> set (missingNonKeys (missingKeys d (missingColumns ex hs)) (missingColumns ex hs)) \<longleftrightarrow>
     e \<in> set ex \<and> e \<notin> set hs \<and> \<not> isMissingKey d e"
  by (auto simp: missingNonKeys_def missingKeys_def missingColumns_def)

section \<open>Paths and the loop over the entities\<close>

lemma length_split_on: "length (split_on c s) = Suc (length (filter (\<lambda>x. x = c) s))"
  by (induction s) (auto split: list.splits)

lemma split_on_no_sep: "c \<notin> set s \<Longrightarrow> split_on c s = [s]"
  by (induction s) auto

lemma last_split_on_append: "last (split_on c (xs @ c # ys)) = last (split_on c ys)"
proof (induction xs)
  case Nil
  have "split_on c ys \<noteq> []"
    using length_split_on [of c ys] by auto
  then show ?case by simp
next
  case (Cons x xs)
  have two: "2 \<le> length (split_on c (xs @ c # ys))"
    by (simp add: length_split_on)
  show ?case
  proof (cases "x = c")
    case True
    with two Cons show ?thesis by auto
  next
    case False
    obtain y z zs where "split_on c (xs @ c # ys) = y # z # zs"
      using two by (metis One_nat_def Suc_1 Suc_le_length_iff)
    with False Cons show ?thesis by simp
  qed
qed

lemma basename_path_join: "CHR ''/'' \<notin> set name \<Longrightarrow> basename (path_join dir name) = name"
  by (simp add: basename_def path_join_def last_split_on_append split_on_no_sep)

lemma emitted_pair:
  "ev \<in> set (emitted (validateHeaderRow rd p n m lvl)) \<Longrightarrow> headerPairOf ev = Some (n, basename p)"
  by (auto simp: validateHeaderRow_def headerPairOf_def Let_def split: option.splits if_splits)

lemma headerStep_out: "out (headerStep rd m lvl files name a) = out a @ headerEvents rd m lvl files name"
  by (simp add: headerStep_def headerEvents_def Let_def split: option.splits)

lemma fold_headerStep_out:
  "out (fold (headerStep rd m lvl files) names a) = out a @ concat (map (headerEvents rd m lvl files) names)"
  by (induction names arbitrary: a) (simp_all add: headerStep_out)

lemma headerEvents_pair:
  assumes "ev \<in> set (headerEvents rd m lvl files name)"
    and "\<forall>d\<in>set files. CHR ''/'' \<notin> set (actualName d)"
  shows "headerPairOf ev = Some (name, strictNameOf name) \<and> strictNameOf name \<in> actualName ` set files"
proof (cases "List.find (\<lambda>f. actualName f = strictNameOf name) files")
  case None
  with assms(1) show ?thesis by (simp add: headerEvents_def headerStep_def)
next
  case (Some ex)
  then have ex: "ex \<in> set files" "actualName ex = strictNameOf name"
    by (auto simp: find_Some_iff)
  from Some assms(1) have "ev \<in> set (emitted (validateHeaderRow rd (path_join (folder ex) (actualName ex)) name m lvl))"
    by (simp add: headerEvents_def headerStep_def Let_def)
  then have "headerPairOf ev = Some (name, basename (path_join (folder ex) (actualName ex)))"
    by (rule emitted_pair)
  moreover have "basename (path_join (folder ex) (actualName ex)) = actualName ex"
    using assms(2) ex(1) by (simp add: basename_path_join)
  moreover have "strictNameOf name \<in> actualName ` set files"
    using ex by (metis imageI)
  ultimately show ?thesis using ex(2) by simp
qed

lemma set_insert_name: "set (insert_name x ys) = insert x (set ys)"
  by (induction ys) auto

lemma set_sort_names: "set (sort_names xs) = set xs"
  by (induction xs) (simp_all add: sort_names_def set_insert_name)

lemma distinct_insert_name: "distinct (insert_name x ys) = (x \<notin> set ys \<and> distinct ys)"
  by (induction ys) (auto simp: set_insert_name)

lemma distinct_sort_names: "distinct (sort_names xs) = distinct xs"
  by (induction xs) (simp_all add: sort_names_def distinct_insert_name set_sort_names [unfolded sort_names_def])

text \<open>\<open>sort_names\<close> sorts: \<open>str_le\<close> is a total preorder and the result is ascending.\<close>

lemma str_le_total: "str_le x y \<or> str_le y x"
proof (induction x arbitrary: y)
  case Nil
  then show ?case by simp
next
  case (Cons a x)
  show ?case
  proof (cases y)
    case Nil
    then show ?thesis by simp
  next
    case (Cons b y')
    have "a \<noteq> b \<Longrightarrow> (of_char a :: nat) < of_char b \<or> (of_char b :: nat) < of_char a"
      by (metis linorder_neqE_nat of_char_eq_iff)
    with Cons Cons.IH [of y'] show ?thesis by auto
  qed
qed

lemma str_le_trans: "str_le x y \<Longrightarrow> str_le y z \<Longrightarrow> str_le x z"
proof (induction x arbitrary: y z)
  case Nil
  then show ?case by simp
next
  case (Cons a x)
  then obtain b y' where y: "y = b # y'" by (cases y) auto
  with Cons.prems obtain c z' where z: "z = c # z'" by (cases z) auto
  from Cons.prems Cons.IH [of y' z'] show ?case
    unfolding y z by (auto split: if_splits)
qed

lemma sorted_insert_name:
  "sorted_wrt str_le ys \<Longrightarrow> sorted_wrt str_le (insert_name x ys)"
proof (induction ys)
  case Nil
  then show ?case by simp
next
  case (Cons y ys)
  show ?case
  proof (cases "str_le x y")
    case True
    with Cons.prems show ?thesis by (auto intro: str_le_trans)
  next
    case False
    then have "str_le y x" using str_le_total by blast
    with False Cons show ?thesis by (auto simp: set_insert_name)
  qed
qed

lemma sorted_sort_names: "sorted_wrt str_le (sort_names xs)"
  by (induction xs) (simp_all add: sort_names_def sorted_insert_name)

section \<open>Unreadable files and what a run depends on\<close>





lemma validateCsvHeaders_counts:
  assumes "gatherCsvFiles dirs dataFolders = Inr files" and "files \<noteq> []"
  shows "\<exists>e w. countsOf (validateCsvHeaders m dirs rd lvl) = Some (e, w)"
  using assms by (simp add: validateCsvHeaders_def countsOf_def summary_def)

lemma gather_folder:
  "gatherCsvFiles dirs ds = Inr files \<Longrightarrow> f \<in> set files \<Longrightarrow> folder f \<in> set ds"
proof (induction ds arbitrary: files)
  case Nil
  then show ?case by simp
next
  case (Cons d ds)
  then show ?case
    by (auto simp: csvFilesIn_def split: sum.splits folder_state.splits)
qed

lemma getCsvHeaders_cong: "rd p = rd' p \<Longrightarrow> getCsvHeaders rd p = getCsvHeaders rd' p"
  by (simp add: getCsvHeaders_def)

lemma validateHeaderRow_cong:
  "rd p = rd' p \<Longrightarrow> validateHeaderRow rd p n m lvl = validateHeaderRow rd' p n m lvl"
  by (simp add: validateHeaderRow_def getCsvHeaders_cong [of rd p rd'] split: option.splits)

lemma headerStep_cong:
  assumes "\<forall>f\<in>set files. rd (path_join (folder f) (actualName f)) = rd' (path_join (folder f) (actualName f))"
  shows "headerStep rd m lvl files = headerStep rd' m lvl files"
proof (intro ext)
  fix name a
  show "headerStep rd m lvl files name a = headerStep rd' m lvl files name a"
  proof (cases "List.find (\<lambda>f. actualName f = strictNameOf name) files")
    case None
    then show ?thesis by (simp add: headerStep_def)
  next
    case (Some ex)
    then have "ex \<in> set files" by (auto simp: find_Some_iff)
    with assms have "rd (path_join (folder ex) (actualName ex)) = rd' (path_join (folder ex) (actualName ex))"
      by blast
    then show ?thesis
      using Some by (simp add: headerStep_def validateHeaderRow_cong [of rd _ rd'])
  qed
qed

lemma validateCsvHeaders_cong:
  assumes "gatherCsvFiles dirs dataFolders = gatherCsvFiles dirs' dataFolders"
    and "\<forall>p\<in>set (discoveredPaths dirs). rd p = rd' p"
  shows "validateCsvHeaders m dirs rd lvl = validateCsvHeaders m dirs' rd' lvl"
proof (cases "gatherCsvFiles dirs dataFolders")
  case (Inl e)
  moreover from Inl assms(1) have "gatherCsvFiles dirs' dataFolders = Inl e" by simp
  ultimately show ?thesis by (simp add: validateCsvHeaders_def)
next
  case (Inr files)
  with assms(2) have "\<forall>f\<in>set files. rd (path_join (folder f) (actualName f)) = rd' (path_join (folder f) (actualName f))"
    by (simp add: discoveredPaths_def)
  then have "headerStep rd m lvl files = headerStep rd' m lvl files"
    by (rule headerStep_cong)
  moreover from Inr assms(1) have "gatherCsvFiles dirs' dataFolders = Inr files" by simp
  ultimately show ?thesis using Inr by (simp add: validateCsvHeaders_def)
qed









lemma aborts_only_on_listing:
  "isl (validateCsvHeaders m dirs rd lvl) = isl (gatherCsvFiles dirs dataFolders)"
  by (simp add: validateCsvHeaders_def split: sum.splits)

section \<open>The file loop of \<open>src/unnamed/part_000\<close>\<close>

lemma lowerChar_dot: "lowerChar CHR ''.'' = CHR ''.''"
  by (simp add: lowerChar_def upperChars_def lowerChars_def)

lemma lowerChar_hyphen: "lowerChar CHR ''-'' = CHR ''-''"
  by (simp add: lowerChar_def upperChars_def lowerChars_def)

lemma toLowerCase_csv: "toLowerCase ''.csv'' = ''.csv''"
  by (simp add: toLowerCase_def lowerChar_def upperChars_def lowerChars_def)

lemma toLowerCase_append: "toLowerCase (xs @ ys) = toLowerCase xs @ toLowerCase ys"
  by (simp add: toLowerCase_def)

lemma endsWith_append: "endsWith p (xs @ p)"
  by (simp add: endsWith_def startsWith_def)

lemma stripCsv_strictNameOf:
  "stripCsv (strictNameOf c) = map (\<lambda>x. if x = CHR ''.'' then CHR ''-'' else x) c"
proof -
  have "endsWith ''.csv'' (toLowerCase (strictNameOf c))"
    unfolding strictNameOf_def toLowerCase_append toLowerCase_csv by (rule endsWith_append)
  then show ?thesis
    by (simp add: stripCsv_def strictNameOf_def)
qed

lemma fold_lookup_Some:
  "fold remember ents t0 k = Some c \<Longrightarrow> (c \<in> set ents \<and> toLowerCase c = k) \<or> t0 k = Some c"
proof (induction ents arbitrary: t0)
  case Nil
  then show ?case by simp
next
  case (Cons e ents)
  from Cons.prems have "fold remember ents (remember e t0) k = Some c"
    by simp
  from Cons.IH [OF this] show ?case
    by (auto simp: remember_def split: if_splits)
qed

lemma entityLookupOf_Some:
  "entityLookupOf ents k = Some c \<Longrightarrow> c \<in> set ents \<and> toLowerCase c = k"
  using fold_lookup_Some [of ents Map.empty k c] by (simp add: entityLookupOf_def)

lemma readLookup_Name:
  "readLookup (entityLookupOf ents) k = Name c \<Longrightarrow> c \<in> set ents \<and> toLowerCase c = k"
  by (auto simp: readLookup_def dest: entityLookupOf_Some split: if_splits option.splits)

lemma exact_name_same_entity:
  assumes "g = strictNameOf c"
    and "toLowerCase (hyphensToDots (stripCsv g)) = toLowerCase c"
  shows "hyphensToDots (stripCsv g) = c"
proof -
  let ?r = "\<lambda>x. if x = CHR ''.'' \<or> x = CHR ''-'' then CHR ''.'' else x"
  have efn: "hyphensToDots (stripCsv g) = map ?r c"
    unfolding assms(1) stripCsv_strictNameOf hyphensToDots_def by auto
  with assms(2) have "\<forall>x\<in>set c. lowerChar (?r x) = lowerChar x"
    by (simp add: toLowerCase_def)
  then have "CHR ''-'' \<notin> set c"
    using lowerChar_dot lowerChar_hyphen by fastforce
  then have "map ?r c = c"
    by (intro map_idI) auto
  with efn show ?thesis by simp
qed

lemma csv_suffix:
  assumes "endsWith ''.csv'' (toLowerCase g)"
  shows "toLowerCase g = toLowerCase (stripCsv g) @ ''.csv''"
proof -
  have "take 4 (rev (toLowerCase g)) = rev ''.csv''"
    using assms by (simp add: endsWith_def startsWith_def eval_nat_numeral)
  then have "rev (drop (length g - 4) (toLowerCase g)) = rev ''.csv''"
    by (simp add: take_rev toLowerCase_def)
  then have "drop (length g - 4) (toLowerCase g) = ''.csv''"
    using rev_is_rev_conv by blast
  moreover have "toLowerCase g = take (length g - 4) (toLowerCase g) @ drop (length g - 4) (toLowerCase g)"
    by simp
  ultimately show ?thesis
    using assms by (simp add: stripCsv_def toLowerCase_def take_map)
qed

lemma dots_hyphens_inverse:
  "CHR ''.'' \<notin> set b \<Longrightarrow> map (\<lambda>x. if x = CHR ''.'' then CHR ''-'' else x) (hyphensToDots b) = b"
  by (induction b) (auto simp: hyphensToDots_def)

lemma filename_only_case:
  assumes "endsWith ''.csv'' (toLowerCase g)" and "CHR ''.'' \<notin> set (stripCsv g)"
  shows "toLowerCase g = toLowerCase (strictNameOf (hyphensToDots (stripCsv g)))"
  by (simp add: csv_suffix [OF assms(1)] strictNameOf_def dots_hyphens_inverse [OF assms(2)]
      toLowerCase_append toLowerCase_csv)

text \<open>
  In \<open>src/unnamed/part_000\<close>, a file matched to an entity whose name it spells in
  another case is an error, whatever its extension; a file that spells the entity name
  exactly and is not the strict name is a warning, and then differs from the strict name
  in case only (\<open>filename_only_case\<close>).
\<close>

lemma fileStep_entity_case:
  assumes "CHR ''.'' \<notin> set (stripCsv (actualName f))"
    and "readLookup (entityLookupOf ents) (toLowerCase (hyphensToDots (stripCsv (actualName f)))) = Name c"
    and "c \<noteq> []"
    and "hyphensToDots (stripCsv (actualName f)) \<noteq> c"
  shows "fileStep lvl (entityLookupOf ents) f a =
           Inr (a\<lparr>errors := errors a + 1,
                  out := out a @ [EntityCaseError (actualName f) (hyphensToDots (stripCsv (actualName f))) c (strictNameOf c)]\<rparr>)"
proof -
  have "toLowerCase (hyphensToDots (stripCsv (actualName f))) = toLowerCase c"
    using readLookup_Name [OF assms(2)] by simp
  with assms(4) have "actualName f \<noteq> strictNameOf c"
    using exact_name_same_entity by blast
  with assms show ?thesis
    by (simp add: fileStep_def Let_def)
qed

lemma fileStep_filename_case:
  assumes "CHR ''.'' \<notin> set (stripCsv (actualName f))"
    and "readLookup t (toLowerCase (hyphensToDots (stripCsv (actualName f)))) = Name c"
    and "c \<noteq> []"
    and "hyphensToDots (stripCsv (actualName f)) = c"
    and "actualName f \<noteq> strictNameOf c"
  shows "fileStep lvl t f a =
           Inr (a\<lparr>warnings := warnings a + 1,
                  out := out a @ (if 1 \<le> lvl then [CaseMismatch c (strictNameOf c) (actualName f)] else [])\<rparr>)"
  using assms by (simp add: fileStep_def Let_def)

section \<open>The missing-file pass of \<open>src/unnamed/part_000\<close>\<close>

lemma fold_noCsv_counts:
  "errors (fold (noCsvStep lvl files) ents a) = errors a \<and>
   warnings (fold (noCsvStep lvl files) ents a) = warnings a"
  by (induction ents arbitrary: a) (simp_all add: noCsvStep_def Let_def)

lemma fold_noCsv_out:
  "out (fold (noCsvStep lvl files) ents a) = out a @ concat (map (noCsvEvents lvl files) ents)"
  by (induction ents arbitrary: a) (simp_all add: noCsvStep_def noCsvEvents_def Let_def)

lemma count_noCsvEvents:
  "count_list (concat (map (noCsvEvents lvl files) ents)) (NoCsv n s) =
     (if s = strictNameOf n \<and> \<not> list_ex (\<lambda>f. actualName f = strictNameOf n) files \<and> 2 \<le> lvl
      then count_list ents n else 0)"
  by (induction ents) (auto simp: noCsvEvents_def)

lemma fileStep_keeps_NoCsv:
  "fileStep lvl t f a = Inr a' \<Longrightarrow> count_list (out a') (NoCsv n s) = count_list (out a) (NoCsv n s)"
  by (auto simp: fileStep_def Let_def split: if_splits looked_up.splits)

lemma filesLoop_keeps_NoCsv:
  "filesLoop lvl t fs a = Inr a' \<Longrightarrow> count_list (out a') (NoCsv n s) = count_list (out a) (NoCsv n s)"
proof (induction fs arbitrary: a)
  case Nil
  then show ?case by simp
next
  case (Cons f fs)
  then show ?case
    by (auto split: sum.splits dest: fileStep_keeps_NoCsv)
qed

lemma count_list_distinct: "distinct xs \<Longrightarrow> x \<in> set xs \<Longrightarrow> count_list xs x = 1"
  by (induction xs) (auto simp: count_list_0_iff)

lemma distinct_entitiesOf: "distinct (map fst m) \<Longrightarrow> distinct (entitiesOf m)"
  by (simp add: entitiesOf_def distinct_sort_names)

section \<open>The claims\<close>

text \<open>
  C1. The claim: the pair (errorCount, warningCount) of header reconciliation is the same
  at verbosity 0, 1 and 2. In \<open>validateHeaderRow\<close> the flag \<open>hasWarnings\<close> is set
  inside the block guarded by \<open>traceLevel >= 1\<close>, so the warning is not counted at
  verbosity 0. For scenario A with the header row \<open>ID\<close> (column \<open>status\<close> missing)
  the counts are (0, 0) at verbosity 0 and (0, 1) at verbosity 1 and 2.
\<close>

theorem header_warning_count_follows_verbosity:
  "countsOf (validateCsvHeaders csnA dirsA (fileWith ''ID'') 0) = Some (0, 0) \<and>
   countsOf (validateCsvHeaders csnA dirsA (fileWith ''ID'') 1) = Some (0, 1) \<and>
   countsOf (validateCsvHeaders csnA dirsA (fileWith ''ID'') 2) = Some (0, 1)"
  by code_simp

text \<open>The error flag, on the other hand, does not depend on the verbosity.\<close>

lemma hasErrors_any_verbosity:
  "hasErrors (validateHeaderRow rd p n m lvl) = hasErrors (validateHeaderRow rd p n m lvl')"
  by (simp add: validateHeaderRow_def Let_def split: option.splits)

text \<open>
  So the error count of a run is the same at every verbosity, the counts at verbosity 1
  and 2 coincide, and the warning count at verbosity 0 is always zero.
\<close>

lemma hasWarnings_verbosity_0: "\<not> hasWarnings (validateHeaderRow rd p n m 0)"
  by (simp add: validateHeaderRow_def Let_def split: option.splits)

lemma hasWarnings_verbosity_1_up:
  "1 \<le> lvl \<Longrightarrow> 1 \<le> lvl' \<Longrightarrow>
   hasWarnings (validateHeaderRow rd p n m lvl) = hasWarnings (validateHeaderRow rd p n m lvl')"
  by (simp add: validateHeaderRow_def Let_def split: option.splits)

lemma fold_headerStep_errors:
  "errors a = errors a' \<Longrightarrow>
   errors (fold (headerStep rd m lvl fs) ns a) = errors (fold (headerStep rd m lvl' fs) ns a')"
proof (induction ns arbitrary: a a')
  case Nil
  then show ?case by simp
next
  case (Cons n ns)
  have "errors (headerStep rd m lvl fs n a) = errors (headerStep rd m lvl' fs n a')"
    using Cons.prems hasErrors_any_verbosity [of rd _ n m lvl lvl']
    by (simp add: headerStep_def Let_def split: option.splits)
  then show ?case by (simp add: Cons.IH)
qed

lemma fold_headerStep_warnings:
  "1 \<le> lvl \<Longrightarrow> 1 \<le> lvl' \<Longrightarrow> warnings a = warnings a' \<Longrightarrow>
   warnings (fold (headerStep rd m lvl fs) ns a) = warnings (fold (headerStep rd m lvl' fs) ns a')"
proof (induction ns arbitrary: a a')
  case Nil
  then show ?case by simp
next
  case (Cons n ns)
  have "warnings (headerStep rd m lvl fs n a) = warnings (headerStep rd m lvl' fs n a')"
    using Cons.prems hasWarnings_verbosity_1_up [of lvl lvl' rd _ n m]
    by (simp add: headerStep_def Let_def split: option.splits)
  with Cons.prems(1,2) show ?case by (simp add: Cons.IH)
qed

lemma fold_headerStep_warnings_0:
  "warnings (fold (headerStep rd m 0 fs) ns a) = warnings a"
  by (induction ns arbitrary: a)
    (simp_all add: headerStep_def Let_def hasWarnings_verbosity_0 split: option.splits)

lemma header_error_count_any_verbosity:
  "map_option fst (countsOf (validateCsvHeaders m dirs rd lvl)) =
   map_option fst (countsOf (validateCsvHeaders m dirs rd lvl'))"
  using fold_headerStep_errors [of _ _ rd m lvl _ _ lvl']
  by (simp add: validateCsvHeaders_def countsOf_def summary_def split: sum.splits)

lemma header_counts_verbosity_1_up:
  "1 \<le> lvl \<Longrightarrow> 1 \<le> lvl' \<Longrightarrow>
   countsOf (validateCsvHeaders m dirs rd lvl) = countsOf (validateCsvHeaders m dirs rd lvl')"
  using fold_headerStep_errors [of _ _ rd m lvl _ _ lvl']
    fold_headerStep_warnings [of lvl lvl' _ _ rd m]
  by (simp add: validateCsvHeaders_def countsOf_def summary_def split: sum.splits)

lemma header_warning_count_verbosity_0:
  "countsOf (validateCsvHeaders m dirs rd 0) = Some (e, w) \<Longrightarrow> w = 0"
  by (auto simp: validateCsvHeaders_def countsOf_def summary_def fold_headerStep_warnings_0
      split: sum.splits if_splits)






text \<open>
  C4. The claim: a file whose base name spells the entity name in another case is an
  error; a file that differs from the strict name in case only, the entity name being
  exact, is a warning. \<open>src/unnamed/part_000\<close> does so (\<open>fileStep_entity_case\<close>,
  \<open>fileStep_filename_case\<close>). \<open>src/tools/validate-csv.js\<close> does not: for entity
  \<open>sales.Order\<close> and file \<open>sales-order.csv\<close> it counts a warning, where
  \<open>src/unnamed/part_000\<close> counts an error.
\<close>

theorem entity_case_mismatch_is_warning_in_tools_copy:
  "hyphensToDots (stripCsv ''sales-order.csv'') \<noteq> ''sales.Order'' \<and>
   toLowerCase (hyphensToDots (stripCsv ''sales-order.csv'')) = toLowerCase ''sales.Order'' \<and>
   countsOf (validateCsvFilenames csnA dirsLowerName 1) = Some (0, 1) \<and>
   printedOf (validateCsvFilenames csnA dirsLowerName 1) =
     [Loading Filenames, FoundCsvFiles Filenames 1,
      CaseMismatch ''sales.Order'' ''sales-Order.csv'' ''sales-order.csv'',
      Separator, Findings Filenames 0 1] \<and>
   countsOf (validateCsvFilenames_part_000 csnA dirsLowerName 1) = Some (1, 0)"
  by code_simp

text \<open>
  C5. Let \<open>name\<close> be a to-one association of the entity whose target has the key field
  \<open>k\<close>. The column \<open>name_k\<close> is expected; it is never among the reported missing
  key columns; removing it from a header row leaves the error flag as it was; and, absent,
  it is reported among the missing non-key columns at verbosity 1 and above, and raises
  no warning flag at verbosity 0.
\<close>

theorem composite_fk_never_a_missing_key:
  assumes "map_of m n = Some d"
    and "(name, el) \<in> set (elements d)"
    and "etype el = Some ''cds.Association''" and "\<not> virtual el" and "\<not> el_skip el"
    and "name \<notin> set managedFields" and "\<not> isToMany el"
    and "lookupTarget m (target el) = Some tdef"
    and "map_of (elements tdef) k = Some kel" and "key kel"
    and "getCsvHeaders rd' p = removeAll (name @ ''_'' @ k) (getCsvHeaders rd p)"
  shows "name @ ''_'' @ k \<in> set (expectedColumns m d) \<and>
         name @ ''_'' @ k \<notin> set (reportedMissingKeys (emitted (validateHeaderRow rd' p n m lvl))) \<and>
         hasErrors (validateHeaderRow rd' p n m lvl) = hasErrors (validateHeaderRow rd p n m lvl) \<and>
         (if 1 \<le> lvl
          then name @ ''_'' @ k \<in> set (reportedMissingNonKeys (emitted (validateHeaderRow rd' p n m lvl)))
          else \<not> hasWarnings (validateHeaderRow rd' p n m lvl))"
proof -
  let ?col = "name @ ''_'' @ k"
  have us: "CHR ''_'' \<in> set ?col" by simp
  have ex: "?col \<in> set (expectedColumns m d)"
    using assms(2-10) by (rule fk_expected)
  have "?col \<notin> set (reportedMissingKeys (emitted (validateHeaderRow rd' p n m lvl)))"
    unfolding reportedMissingKeys_row [OF assms(1)] using us by (rule underscore_not_missingKey)
  moreover have "hasErrors (validateHeaderRow rd' p n m lvl) = hasErrors (validateHeaderRow rd p n m lvl)"
    unfolding hasErrors_row [OF assms(1)] assms(11)
    by (simp only: extra_removeAll [OF ex] missingKeys_removeAll [OF us])
  moreover have "?col \<in> set (missingNonKeys
      (missingKeys d (missingColumns (expectedColumns m d) (getCsvHeaders rd' p)))
      (missingColumns (expectedColumns m d) (getCsvHeaders rd' p)))"
    unfolding missing_nonkey_iff using ex us by (simp add: assms(11) isMissingKey_def)
  then have "if 1 \<le> lvl
          then ?col \<in> set (reportedMissingNonKeys (emitted (validateHeaderRow rd' p n m lvl)))
          else \<not> hasWarnings (validateHeaderRow rd' p n m lvl)"
    using assms(1) by (simp add: reportedMissingNonKeys_row) (simp add: validateHeaderRow_def Let_def)
  ultimately show ?thesis using ex by simp
qed

text \<open>At the second model: \<open>customer_ID\<close>, absent from the header row.\<close>

theorem composite_fk_never_a_missing_key_witness:
  "''customer_ID'' \<in> set (expectedColumns csnB orderB) \<and>
   ''customer_ID'' \<notin> set (getCsvHeaders (fileWith ''ID,order_no,status'') orderPath) \<and>
   ''customer_ID'' \<notin> set (reportedMissingKeys (emitted
      (validateHeaderRow (fileWith ''ID,order_no,status'') orderPath ''sales.Order'' csnB 1))) \<and>
   \<not> hasErrors (validateHeaderRow (fileWith ''ID,order_no,status'') orderPath ''sales.Order'' csnB 1) \<and>
   ''customer_ID'' \<in> set (reportedMissingNonKeys (emitted
      (validateHeaderRow (fileWith ''ID,order_no,status'') orderPath ''sales.Order'' csnB 1)))"
proof -
  let ?el = "el0\<lparr>etype := Some ''cds.Association'', target := Some ''sales.Customer''\<rparr>"
  have h1: "map_of csnB ''sales.Order'' = Some orderB" by code_simp
  have h2: "(''customer'', ?el) \<in> set (elements orderB)" by code_simp
  have h3: "etype ?el = Some ''cds.Association''" by code_simp
  have h4: "\<not> virtual ?el" by code_simp
  have h5: "\<not> el_skip ?el" by code_simp
  have h6: "''customer'' \<notin> set managedFields" by code_simp
  have h7: "\<not> isToMany ?el" by code_simp
  have h8: "lookupTarget csnB (target ?el) = Some customerB" by code_simp
  have h9: "map_of (elements customerB) ''ID'' = Some keyEl" by code_simp
  have h10: "key keyEl" by code_simp
  have h11: "getCsvHeaders (fileWith ''ID,order_no,status'') orderPath =
      removeAll (''customer'' @ ''_'' @ ''ID'')
        (getCsvHeaders (fileWith ''ID,order_no,status,customer_ID'') orderPath)"
    by code_simp
  have e: "\<not> hasErrors (validateHeaderRow (fileWith ''ID,order_no,status,customer_ID'') orderPath
      ''sales.Order'' csnB 1)"
    by code_simp
  have a: "''customer_ID'' \<notin> set (getCsvHeaders (fileWith ''ID,order_no,status'') orderPath)"
    by code_simp
  show ?thesis
    using composite_fk_never_a_missing_key [OF h1 h2 h3 h4 h5 h6 h7 h8 h9 h10 h11, of 1] e a
    by simp
qed

text \<open>
  C6. A managed column (\<open>createdAt\<close>, \<open>createdBy\<close>, \<open>modifiedAt\<close>,
  \<open>modifiedBy\<close>) is never an expected column, and no finding of
  \<open>validateHeaderRow\<close> lists it: not as a missing key column, not as a missing non-key
  column, not as an extra column, whatever the header row.
\<close>

theorem managed_columns_never_reported:
  assumes "c \<in> set managedFields"
  shows "c \<notin> set (expectedColumns m d) \<and>
         c \<notin> set (reportedMissingKeys (emitted (validateHeaderRow rd p n m lvl))) \<and>
         c \<notin> set (reportedMissingNonKeys (emitted (validateHeaderRow rd p n m lvl))) \<and>
         c \<notin> set (reportedExtra (emitted (validateHeaderRow rd p n m lvl)))"
proof (cases "map_of m n")
  case None
  then show ?thesis
    using managed_not_expected [OF assms]
    by (simp add: validateHeaderRow_def reportedMissingKeys_def reportedMissingNonKeys_def
        reportedExtra_def)
next
  case (Some d')
  have ne: "c \<notin> set (expectedColumns m d')"
    using assms by (rule managed_not_expected)
  have "c \<notin> set (missingKeys d' (missingColumns (expectedColumns m d') (getCsvHeaders rd p)))"
    using ne by (simp add: missingKeys_def missingColumns_def)
  moreover have "c \<notin> set (missingNonKeys
      (missingKeys d' (missingColumns (expectedColumns m d') (getCsvHeaders rd p)))
      (missingColumns (expectedColumns m d') (getCsvHeaders rd p)))"
    using ne by (simp add: missing_nonkey_iff)
  moreover have "c \<notin> set (extraColumns d' (expectedColumns m d') (getCsvHeaders rd p))"
    using assms by (rule managed_not_extra)
  ultimately show ?thesis
    using managed_not_expected [OF assms, of m d]
    by (simp add: reportedMissingKeys_row [OF Some] reportedMissingNonKeys_row [OF Some]
        reportedExtra_row [OF Some])
qed

text \<open>At the second model: \<open>createdAt\<close> is a field of the entity and absent from the
  header row.\<close>

theorem managed_columns_never_reported_witness:
  "''createdAt'' \<in> set managedFields \<and>
   ''createdAt'' \<in> set (map fst (elements orderB)) \<and>
   ''createdAt'' \<notin> set (getCsvHeaders (fileWith ''ID,status,modifiedBy'') orderPath) \<and>
   ''createdAt'' \<notin> set (expectedColumns csnB orderB) \<and>
   ''createdAt'' \<notin> set (reportedMissingKeys (emitted
      (validateHeaderRow (fileWith ''ID,status,modifiedBy'') orderPath ''sales.Order'' csnB 2))) \<and>
   ''createdAt'' \<notin> set (reportedMissingNonKeys (emitted
      (validateHeaderRow (fileWith ''ID,status,modifiedBy'') orderPath ''sales.Order'' csnB 2))) \<and>
   ''createdAt'' \<notin> set (reportedExtra (emitted
      (validateHeaderRow (fileWith ''ID,status,modifiedBy'') orderPath ''sales.Order'' csnB 2)))"
proof -
  have h: "''createdAt'' \<in> set managedFields" by code_simp
  have a: "''createdAt'' \<in> set (map fst (elements orderB))" by code_simp
  have b: "''createdAt'' \<notin> set (getCsvHeaders (fileWith ''ID,status,modifiedBy'') orderPath)"
    by code_simp
  show ?thesis
    using managed_columns_never_reported [OF h, of csnB orderB "fileWith ''ID,status,modifiedBy''"
        orderPath "''sales.Order''" 2] h a b
    by simp
qed

text \<open>
  C7, as amended, for \<open>src/unnamed/part_000\<close>. When at least one CSV file is discovered
  and the file loop ends without an exception, an entity with no file of its strict name
  gets exactly one \<open>NoCsv\<close> record at verbosity 2 and above and none below, and the
  counts of the run are those the file loop left: the record adds to neither.
\<close>

theorem no_csv_record_once:
  assumes "validateCsvFilenames_part_000 m dirs lvl = Inr r"
    and "gatherCsvFiles dirs dataFolders = Inr files" and "files \<noteq> []"
    and "distinct (map fst m)"
    and "n \<in> set (entitiesOf m)"
    and "strictNameOf n \<notin> actualName ` set files"
  shows "count_list (printed r) (NoCsv n (strictNameOf n)) = (if 2 \<le> lvl then 1 else 0) \<and>
         (\<exists>a. filesLoop lvl (entityLookupOf (entitiesOf m)) files
                 \<lparr>errors = 0, warnings = 0,
                  out = [Loading Filenames, FoundCsvFiles Filenames (length files)]\<rparr> = Inr a \<and>
              counts r = Some (errors a, warnings a))"
proof -
  let ?a0 = "\<lparr>errors = 0, warnings = 0,
               out = [Loading Filenames, FoundCsvFiles Filenames (length files)]\<rparr>"
  obtain a where a: "filesLoop lvl (entityLookupOf (entitiesOf m)) files ?a0 = Inr a"
    and r: "r = summary Filenames (fold (noCsvStep lvl files) (entitiesOf m) a)"
    using assms(1,2,3) by (auto simp: validateCsvFilenames_part_000_def split: sum.splits)
  have nofile: "\<not> list_ex (\<lambda>f. actualName f = strictNameOf n) files"
  proof
    assume "list_ex (\<lambda>f. actualName f = strictNameOf n) files"
    then obtain f where "f \<in> set files" and "actualName f = strictNameOf n"
      by (auto simp: list_ex_iff)
    then have "strictNameOf n \<in> actualName ` set files"
      by (metis imageI)
    with assms(6) show False by simp
  qed
  have "count_list (out a) (NoCsv n (strictNameOf n)) = 0"
    using filesLoop_keeps_NoCsv [OF a] by simp
  moreover have "count_list (entitiesOf m) n = 1"
    using assms(4,5) by (simp add: count_list_distinct distinct_entitiesOf)
  ultimately have "count_list (printed r) (NoCsv n (strictNameOf n)) = (if 2 \<le> lvl then 1 else 0)"
    using nofile by (simp add: r summary_def fold_noCsv_out count_noCsvEvents)
  moreover have "counts r = Some (errors a, warnings a)"
    by (simp add: r summary_def fold_noCsv_counts)
  ultimately show ?thesis using a by simp
qed

text \<open>At the second model, with a file for \<open>sales.Customer\<close> only.\<close>

theorem no_csv_record_once_witness:
  "''sales.Order'' \<in> set (entitiesOf csnB) \<and>
   printedOf (validateCsvFilenames_part_000 csnB dirsCustomerOnly 2) =
     [Loading Filenames, FoundCsvFiles Filenames 1,
      FilenameOk ''sales.Customer'' ''sales-Customer.csv'',
      NoCsv ''sales.Order'' ''sales-Order.csv'', Separator, Perfect Filenames] \<and>
   count_list (printedOf (validateCsvFilenames_part_000 csnB dirsCustomerOnly 2))
     (NoCsv ''sales.Order'' (strictNameOf ''sales.Order'')) = 1 \<and>
   countsOf (validateCsvFilenames_part_000 csnB dirsCustomerOnly 2) = Some (0, 0)"
proof -
  let ?r = "\<lparr>counts = Some (0, 0),
             printed = [Loading Filenames, FoundCsvFiles Filenames 1,
               FilenameOk ''sales.Customer'' ''sales-Customer.csv'',
               NoCsv ''sales.Order'' ''sales-Order.csv'', Separator, Perfect Filenames]\<rparr>"
  let ?files = "[\<lparr>actualName = ''sales-Customer.csv'', lowerName = ''sales-customer.csv'',
                   folder = ''db/csv''\<rparr>]"
  have h1: "validateCsvFilenames_part_000 csnB dirsCustomerOnly 2 = Inr ?r" by code_simp
  have h2: "gatherCsvFiles dirsCustomerOnly dataFolders = Inr ?files" by code_simp
  have h3: "?files \<noteq> []" by simp
  have h4: "distinct (map fst csnB)" by code_simp
  have h5: "''sales.Order'' \<in> set (entitiesOf csnB)" by code_simp
  have h6: "strictNameOf ''sales.Order'' \<notin> actualName ` set ?files" by code_simp
  show ?thesis
    using no_csv_record_once [OF h1 h2 h3 h4 h5 h6] h1 h5
    by (simp add: printedOf_def countsOf_def)
qed

text \<open>
  C7 as stated fails: when no CSV file is discovered at all, the run returns before any
  entity is looked at, and at verbosity 2 the entity \<open>sales.Order\<close>, which has no file,
  gets no record.
\<close>

theorem no_csv_record_counterexample:
  "''sales.Order'' \<in> set (entitiesOf csnA) \<and>
   strictNameOf ''sales.Order'' \<notin> set (case dirsNoCsv ''db/data'' of Entries fs \<Rightarrow> fs | _ \<Rightarrow> []) \<and>
   printedOf (validateCsvFilenames_part_000 csnA dirsNoCsv 2) = [Loading Filenames, NoCsvFilesFound] \<and>
   printedOf (validateCsvFilenames csnA dirsNoCsv 2) = [Loading Filenames, NoCsvFilesFound]"
  by code_simp

text \<open>\<open>src/tools/validate-csv.js\<close> has no such pass: with the same input as the witness it
  prints nothing about \<open>sales.Order\<close>.\<close>

lemma tools_copy_has_no_missing_file_record:
  "printedOf (validateCsvFilenames csnB dirsCustomerOnly 2) =
     [Loading Filenames, FoundCsvFiles Filenames 1,
      FilenameOk ''sales.Customer'' ''sales-Customer.csv'', Separator, Perfect Filenames]"
  by code_simp

text \<open>
  C8. A run is a function of the model, the discovered files, their contents and the
  verbosity: two file systems that list the same CSV files in the data folders and agree
  on the contents of the discovered files give the same counts and the same records in
  the same order, for both validations and in both copies of the validator, wherever else
  the file systems differ.
\<close>

theorem runs_determined_by_inputs:
  assumes "gatherCsvFiles dirs dataFolders = gatherCsvFiles dirs' dataFolders"
    and "\<forall>p\<in>set (discoveredPaths dirs). rd p = rd' p"
  shows "validateCsvs m dirs rd lvl = validateCsvs m dirs' rd' lvl \<and>
         validateCsvs_part_000 m dirs rd lvl = validateCsvs_part_000 m dirs' rd' lvl"
proof -
  have f: "validateCsvFilenames m dirs lvl = validateCsvFilenames m dirs' lvl"
    unfolding validateCsvFilenames_def assms(1) by (rule refl)
  have g: "validateCsvFilenames_part_000 m dirs lvl = validateCsvFilenames_part_000 m dirs' lvl"
    unfolding validateCsvFilenames_part_000_def assms(1) by (rule refl)
  have h: "validateCsvHeaders m dirs rd lvl = validateCsvHeaders m dirs' rd' lvl"
    using assms by (rule validateCsvHeaders_cong)
  show ?thesis
    unfolding validateCsvs_def validateCsvs_part_000_def f g h by simp
qed

text \<open>At scenario A, with a second file system that has one more folder and one more
  file outside the data folders.\<close>

theorem runs_determined_by_inputs_witness:
  "discoveredPaths dirsA = [orderPath] \<and>
   fileWith ''ID,status'' orderPath = fileWith2 ''ID,status'' orderPath \<and>
   fileWith ''ID,status'' ''README.md'' \<noteq> fileWith2 ''ID,status'' ''README.md'' \<and>
   dirsA ''tmp'' \<noteq> dirsA2 ''tmp'' \<and>
   validateCsvs csnA dirsA (fileWith ''ID,status'') 2 =
     validateCsvs csnA dirsA2 (fileWith2 ''ID,status'') 2 \<and>
   validateCsvs_part_000 csnA dirsA (fileWith ''ID,status'') 2 =
     validateCsvs_part_000 csnA dirsA2 (fileWith2 ''ID,status'') 2"
proof -
  have h1: "gatherCsvFiles dirsA dataFolders = gatherCsvFiles dirsA2 dataFolders" by code_simp
  have h2: "\<forall>p\<in>set (discoveredPaths dirsA). fileWith ''ID,status'' p = fileWith2 ''ID,status'' p"
    by code_simp
  have a: "discoveredPaths dirsA = [orderPath]" by code_simp
  have b: "fileWith ''ID,status'' orderPath = fileWith2 ''ID,status'' orderPath" by code_simp
  have c: "fileWith ''ID,status'' ''README.md'' \<noteq> fileWith2 ''ID,status'' ''README.md''"
    by code_simp
  have d: "dirsA ''tmp'' \<noteq> dirsA2 ''tmp''" by code_simp
  show ?thesis
    using runs_determined_by_inputs [OF h1 h2, of csnA 2] a b c d
    by simp
qed

text \<open>
  C9. A scalar key field whose name has an underscore and which the header row lacks is
  among the missing non-key columns and never among the missing key columns; indeed no
  reported missing key column has an underscore. It is reported as a warning at verbosity
  1 and above.
\<close>

theorem underscore_key_demoted_to_warning:
  assumes "map_of m n = Some d" and "map_of (elements d) name = Some el"
    and "\<not> isAssocOrComp el" and "key el" and "\<not> virtual el" and "\<not> el_skip el"
    and "name \<notin> set managedFields"
    and "CHR ''_'' \<in> set name" and "name \<notin> set (getCsvHeaders rd p)"
  shows "name \<in> set (expectedColumns m d) \<and>
         name \<in> set (missingNonKeys
            (missingKeys d (missingColumns (expectedColumns m d) (getCsvHeaders rd p)))
            (missingColumns (expectedColumns m d) (getCsvHeaders rd p))) \<and>
         name \<notin> set (reportedMissingKeys (emitted (validateHeaderRow rd p n m lvl))) \<and>
         list_all (\<lambda>e. CHR ''_'' \<notin> set e)
           (reportedMissingKeys (emitted (validateHeaderRow rd p n m lvl))) \<and>
         (if 1 \<le> lvl
          then name \<in> set (reportedMissingNonKeys (emitted (validateHeaderRow rd p n m lvl)))
          else \<not> hasWarnings (validateHeaderRow rd p n m lvl))"
proof -
  have mem: "(name, el) \<in> set (elements d)"
    using assms(2) by (rule map_of_SomeD)
  have ex: "name \<in> set (expectedColumns m d)"
    using mem assms(3,5,6,7) by (rule scalar_expected)
  have nk: "\<not> isMissingKey d name"
    using assms(8) by (simp add: isMissingKey_def)
  have mnk: "name \<in> set (missingNonKeys
      (missingKeys d (missingColumns (expectedColumns m d) (getCsvHeaders rd p)))
      (missingColumns (expectedColumns m d) (getCsvHeaders rd p)))"
    using ex nk assms(9) by (simp add: missing_nonkey_iff)
  have rk: "name \<notin> set (reportedMissingKeys (emitted (validateHeaderRow rd p n m lvl)))"
    unfolding reportedMissingKeys_row [OF assms(1)] using assms(8) by (rule underscore_not_missingKey)
  have all: "list_all (\<lambda>e. CHR ''_'' \<notin> set e)
      (reportedMissingKeys (emitted (validateHeaderRow rd p n m lvl)))"
    unfolding reportedMissingKeys_row [OF assms(1)]
    by (auto simp: list_all_iff missingKeys_def isMissingKey_def split: if_splits)
  have w: "if 1 \<le> lvl
      then name \<in> set (reportedMissingNonKeys (emitted (validateHeaderRow rd p n m lvl)))
      else \<not> hasWarnings (validateHeaderRow rd p n m lvl)"
    using mnk assms(1) by (simp add: reportedMissingNonKeys_row) (simp add: validateHeaderRow_def Let_def)
  from ex mnk rk all w show ?thesis by simp
qed

text \<open>At the second model: the key \<open>order_no\<close>, absent from the header row.\<close>

theorem underscore_key_demoted_to_warning_witness:
  "key keyEl \<and> map_of (elements orderB) ''order_no'' = Some keyEl \<and>
   ''order_no'' \<notin> set (getCsvHeaders (fileWith ''ID,status,customer_ID'') orderPath) \<and>
   ''order_no'' \<in> set (expectedColumns csnB orderB) \<and>
   emitted (validateHeaderRow (fileWith ''ID,status,customer_ID'') orderPath ''sales.Order'' csnB 1) =
     [HeaderWarningMissingNonKeys ''sales.Order'' ''sales-Order.csv'' [''order_no'']] \<and>
   ''order_no'' \<notin> set (reportedMissingKeys (emitted
      (validateHeaderRow (fileWith ''ID,status,customer_ID'') orderPath ''sales.Order'' csnB 1))) \<and>
   ''order_no'' \<in> set (reportedMissingNonKeys (emitted
      (validateHeaderRow (fileWith ''ID,status,customer_ID'') orderPath ''sales.Order'' csnB 1)))"
proof -
  have h1: "map_of csnB ''sales.Order'' = Some orderB" by code_simp
  have h2: "map_of (elements orderB) ''order_no'' = Some keyEl" by code_simp
  have h3: "\<not> isAssocOrComp keyEl" by code_simp
  have h4: "key keyEl" by code_simp
  have h5: "\<not> virtual keyEl" by code_simp
  have h6: "\<not> el_skip keyEl" by code_simp
  have h7: "''order_no'' \<notin> set managedFields" by code_simp
  have h8: "CHR ''_'' \<in> set ''order_no''" by code_simp
  have h9: "''order_no'' \<notin> set (getCsvHeaders (fileWith ''ID,status,customer_ID'') orderPath)"
    by code_simp
  have e: "emitted (validateHeaderRow (fileWith ''ID,status,customer_ID'') orderPath
        ''sales.Order'' csnB 1) =
     [HeaderWarningMissingNonKeys ''sales.Order'' ''sales-Order.csv'' [''order_no'']]"
    by code_simp
  show ?thesis
    using underscore_key_demoted_to_warning [OF h1 h2 h3 h4 h5 h6 h7 h8 h9, of 1] h2 h4 h9 e
    by simp
qed

text \<open>
  C10. Every header finding a run of \<open>validateCsvHeaders\<close> prints is about an entity
  and the discovered file that bears its strict name, character for character. So a file
  that matches an entity in another case, or without the namespace prefix, gets no header
  finding for that pair.
\<close>

theorem header_findings_only_for_exact_name:
  assumes "validateCsvHeaders m dirs rd lvl = Inr r"
    and "gatherCsvFiles dirs dataFolders = Inr files"
    and "\<forall>d\<in>set files. CHR ''/'' \<notin> set (actualName d)"
    and "ev \<in> set (printed r)"
    and "headerPairOf ev = Some (n, f)"
  shows "n \<in> set (entitiesOf m) \<and> f = strictNameOf n \<and> f \<in> actualName ` set files"
proof -
  have ne: "files \<noteq> []"
    using assms by (auto simp: validateCsvHeaders_def headerPairOf_def split: if_splits)
  define a where "a = fold (headerStep rd m lvl files) (entitiesOf m)
     \<lparr>errors = 0, warnings = 0, out = [Loading Headers, FoundCsvFiles Headers (length files)]\<rparr>"
  have r: "r = summary Headers a"
    using assms(1,2) ne by (simp add: validateCsvHeaders_def a_def)
  have "ev \<in> set (out a)"
    using assms(4,5) unfolding r by (auto simp: summary_def headerPairOf_def split: if_splits)
  then have "ev \<in> set (concat (map (headerEvents rd m lvl files) (entitiesOf m)))"
    using assms(5) unfolding a_def fold_headerStep_out by (auto simp: headerPairOf_def)
  then obtain name where name: "name \<in> set (entitiesOf m)" "ev \<in> set (headerEvents rd m lvl files name)"
    by auto
  from headerEvents_pair [OF name(2) assms(3)] assms(5) name(1) show ?thesis
    by auto
qed

text \<open>At the second model, with \<open>sales-Order.csv\<close>, \<open>sales-customer.csv\<close> and
  \<open>Customer.csv\<close> discovered: the only header finding is about \<open>sales.Order\<close>.\<close>

theorem header_findings_only_for_exact_name_witness:
  "printedOf (validateCsvHeaders csnB dirsMixed (fileWith ''ID,order_no,status,customer_ID'') 2) =
     [Loading Headers, FoundCsvFiles Headers 3,
      HeaderOk ''sales.Order'' ''sales-Order.csv'', Separator, Perfect Headers] \<and>
   ''sales.Order'' \<in> set (entitiesOf csnB) \<and>
   ''sales-Order.csv'' = strictNameOf ''sales.Order'' \<and>
   ''sales-Order.csv'' \<in> set [''sales-Order.csv'', ''sales-customer.csv'', ''Customer.csv'']"
proof -
  let ?r = "\<lparr>counts = Some (0, 0),
             printed = [Loading Headers, FoundCsvFiles Headers 3,
               HeaderOk ''sales.Order'' ''sales-Order.csv'', Separator, Perfect Headers]\<rparr>"
  let ?files = "[\<lparr>actualName = ''sales-Order.csv'', lowerName = ''sales-order.csv'',
                   folder = ''db/data''\<rparr>,
                 \<lparr>actualName = ''sales-customer.csv'', lowerName = ''sales-customer.csv'',
                   folder = ''db/data''\<rparr>,
                 \<lparr>actualName = ''Customer.csv'', lowerName = ''customer.csv'',
                   folder = ''db/data''\<rparr>]"
  have h1: "validateCsvHeaders csnB dirsMixed (fileWith ''ID,order_no,status,customer_ID'') 2 = Inr ?r"
    by code_simp
  have h2: "gatherCsvFiles dirsMixed dataFolders = Inr ?files" by code_simp
  have h3: "\<forall>d\<in>set ?files. CHR ''/'' \<notin> set (actualName d)" by code_simp
  have h4: "HeaderOk ''sales.Order'' ''sales-Order.csv'' \<in> set (printed ?r)" by simp
  have h5: "headerPairOf (HeaderOk ''sales.Order'' ''sales-Order.csv'') =
      Some (''sales.Order'', ''sales-Order.csv'')"
    by (simp add: headerPairOf_def)
  show ?thesis
    using header_findings_only_for_exact_name [OF h1 h2 h3 h4 h5] h1
    by (simp add: printedOf_def)
qed

end
